theory Spec2Isabelle
  imports Complex_Main
begin

section \<open>The song catalog\<close>

text \<open>
  The route module keeps one module-level constant, \<^verbatim>\<open>songs\<close>, an array of seven object
  literals with the fields \<^verbatim>\<open>id\<close>, \<^verbatim>\<open>name\<close> and \<^verbatim>\<open>artist\<close>. The field \<^verbatim>\<open>id\<close> is written
  \<open>id'\<close> here, since \<open>id\<close> is the identity function of HOL.
\<close>

record song =
  id' :: int
  name :: string
  artist :: string

definition songs :: "song list" where
  "songs =
     [\<lparr>id' = 1, name = ''Teenage Dirtbag'', artist = ''Wheatus''\<rparr>,
      \<lparr>id' = 2, name = ''Smells Like Teen Spirit'', artist = ''Nirvana''\<rparr>,
      \<lparr>id' = 3, name = ''The Middle'', artist = ''Jimmy Eat World''\<rparr>,
      \<lparr>id' = 4, name = ''My Own Worst Enemy'', artist = ''Lit''\<rparr>,
      \<lparr>id' = 5, name = ''Fat Lip'', artist = ''Sum 41''\<rparr>,
      \<lparr>id' = 6, name = ''All the Small Things'', artist = ''blink-182''\<rparr>,
      \<lparr>id' = 7, name = ''Beverly Hills'', artist = ''Weezer''\<rparr>]"

text \<open>
  The state of the server process that the handler can see: the array bound to
  \<^verbatim>\<open>songs\<close>. The binding is \<^verbatim>\<open>const\<close>, the array itself is an ordinary mutable array, so it is
  kept as state and every operation returns the state it leaves behind.
\<close>

record server =
  catalog :: "song list"

definition initial :: server where
  "initial = \<lparr>catalog = songs\<rparr>"

text \<open>The invariants of the data model, as a check that can be run on a catalog.\<close>

definition catalog_inv :: "song list \<Rightarrow> bool" where
  "catalog_inv c \<longleftrightarrow>
     1 \<le> length c \<and>
     list_all (\<lambda>s. 0 < id' s) c \<and>
     distinct (map id' c) \<and>
     list_all (\<lambda>s. name s \<noteq> []) c \<and>
     list_all (\<lambda>s. artist s \<noteq> []) c"

section \<open>JavaScript numbers\<close>

text \<open>
  A JavaScript Number is an IEEE 754 binary64 value. The handler only meets finite
  values that are not negative: the result of \<^verbatim>\<open>Math.random()\<close>, the length of an array and
  their product. Such a value is written \<open>numer / 2 ^ shift\<close>.
\<close>

record number =
  numer :: nat
  shift :: nat

definition number_value :: "number \<Rightarrow> real" where
  "number_value x = real (numer x) / 2 ^ shift x"

text \<open>
  \<^verbatim>\<open>Math.random()\<close> returns a Number that is at least 0 and less than 1. The binary64 values
  in that range are the multiples of \<open>2 ^ -1074\<close> below 1 with at most 53 significant
  bits; every one of them can be written with a numerator below \<open>2 ^ 53\<close>.
\<close>

definition random_value :: "number \<Rightarrow> bool" where
  "random_value d \<longleftrightarrow> numer d < 2 ^ 53 \<and> shift d \<le> 1074 \<and> numer d < 2 ^ shift d"

text \<open>The number of binary digits of a natural number.\<close>

fun bit_length :: "nat \<Rightarrow> nat" where
  "bit_length n = (if n = 0 then 0 else Suc (bit_length (n div 2)))"

declare bit_length.simps [simp del]

text \<open>
  \<open>q / 2 ^ s\<close> rounded to the nearest natural number; a tie goes to the even neighbour.
\<close>

definition round_half_even :: "nat \<Rightarrow> nat \<Rightarrow> nat" where
  "round_half_even q s =
     (let t = q div 2 ^ s; r = q mod 2 ^ s
      in if 2 * r < 2 ^ s then t
         else if 2 ^ s < 2 * r then t + 1
         else if even t then t else t + 1)"

text \<open>
  A numerator rounded to 53 significant bits, the precision of binary64, to nearest with
  ties to even (the only rounding mode of JavaScript).
\<close>

definition round53 :: "nat \<Rightarrow> nat" where
  "round53 q =
     (if bit_length q \<le> 53 then q
      else round_half_even q (bit_length q - 53) * 2 ^ (bit_length q - 53))"

text \<open>
  The product \<^verbatim>\<open>Math.random() * songs.length\<close>. The length of an array is an integer below
  \<open>2 ^ 32\<close>, hence a Number as it stands. The exact product is \<open>(numer d * n) / 2 ^ shift d\<close>;
  the Number that the multiplication returns is this value rounded to binary64. No overflow
  can happen (the product is below \<open>n\<close>), and a product too small for 53 bits of
  precision is a multiple of \<open>2 ^ -1074\<close> with a numerator below \<open>2 ^ 53\<close>, which is a
  binary64 value as it stands: rounding the numerator to 53 significant bits is all the
  rounding there is.
\<close>

definition js_times :: "number \<Rightarrow> nat \<Rightarrow> number" where
  "js_times d n = \<lparr>numer = round53 (numer d * n), shift = shift d\<rparr>"

text \<open>\<^verbatim>\<open>Math.floor\<close> is exact.\<close>

definition js_floor :: "number \<Rightarrow> nat" where
  "js_floor x = numer x div 2 ^ shift x"

text \<open>
  An array read \<^verbatim>\<open>xs[k]\<close> at an integer \<open>k\<close> that is not negative: the element, or
  \<^verbatim>\<open>undefined\<close> (here \<open>None\<close>) when \<open>k\<close> is not an index of the array. Nothing is raised.
\<close>

definition js_index :: "'a list \<Rightarrow> nat \<Rightarrow> 'a option" where
  "js_index xs k = (if k < length xs then Some (xs ! k) else None)"

text \<open>
  The floor of the exact product, with no rounding. The handler does not compute this
  number (it computes \<open>js_floor (js_times r n)\<close>); it is the value that the computed index
  is compared with.
\<close>

definition real_index :: "real \<Rightarrow> nat \<Rightarrow> int" where
  "real_index r n = \<lfloor>r * real n\<rfloor>"

section \<open>The server function\<close>

text \<open>
  A request as the framework hands it to middleware and handler: the payload sent by the
  client and the context collected so far (\<open>context'\<close>, since \<open>context\<close> is a keyword
  of Isabelle).
\<close>

record 'd request =
  data :: 'd
  context' :: "(string \<times> int) list"

text \<open>
  \<^verbatim>\<open>authMiddleware\<close> takes the continuation \<^verbatim>\<open>next\<close> out of its argument, reads nothing else,
  and returns what \<^verbatim>\<open>next({ context: { user: 1 } })\<close> returns.
\<close>

definition authMiddleware :: "((string \<times> int) list \<Rightarrow> 'r) \<Rightarrow> 'r" where
  "authMiddleware next = next [(''user'', 1)]"

text \<open>
  The handler \<^verbatim>\<open>async () => { await db.execute(sql`SELECT 1`); return songs[...] }\<close>.
  It has no parameter, so what the framework passes to it (\<open>ctx\<close>) is not read. The two
  things it takes from outside are arguments here: \<open>db\<close> is how the query ends (\<open>Inl e\<close>
  when the promise is rejected with \<open>e\<close>, \<open>Inr q\<close> when it is fulfilled with the rows \<open>q\<close>),
  and \<open>r\<close> is the Number that \<^verbatim>\<open>Math.random()\<close> returns. A rejected \<^verbatim>\<open>await\<close> throws, and the
  async function's promise is rejected with the same value, before the second statement
  runs. The result is \<open>Inl e\<close> for a rejection, \<open>Inr v\<close> for the value returned, where
  \<open>v = None\<close> is \<^verbatim>\<open>undefined\<close>.
\<close>

definition handler ::
  "'c \<Rightarrow> server \<Rightarrow> 'e + 'q \<Rightarrow> number \<Rightarrow> ('e + song option) \<times> server" where
  "handler ctx st db r =
     (case db of
        Inl e \<Rightarrow> (Inl e, st)
      | Inr q \<Rightarrow>
          (Inr (js_index (catalog st) (js_floor (js_times r (length (catalog st))))), st))"

text \<open>
  \<^verbatim>\<open>createServerFn({ method: 'POST' }).middleware([m]).handler(h)\<close>: the middleware runs
  first, and the continuation it is given adds the context it passes on to the request's
  context (a later entry for a key hides an earlier one) and runs the handler.
\<close>

definition createServerFn ::
  "(((string \<times> int) list \<Rightarrow> 'r) \<Rightarrow> 'r) \<Rightarrow> ('d request \<Rightarrow> 'r) \<Rightarrow> 'd request \<Rightarrow> 'r" where
  "createServerFn m h req = m (\<lambda>added. h (req\<lparr>context' := added @ context' req\<rparr>))"

definition getRandomSong ::
  "'d request \<Rightarrow> server \<Rightarrow> 'e + 'q \<Rightarrow> number \<Rightarrow> ('e + song option) \<times> server" where
  "getRandomSong = createServerFn authMiddleware handler"

text \<open>
  The server after a sequence of calls, each with its request, the outcome of its query
  and its random draw.
\<close>

fun serve :: "server \<Rightarrow> ('d request \<times> ('e + 'q) \<times> number) list \<Rightarrow> server" where
  "serve st [] = st"
| "serve st ((req, db, r) # calls) = serve (snd (getRandomSong req st db r)) calls"

section \<open>Rounding to binary64\<close>

lemma bit_length_bounds:
  "0 < n \<Longrightarrow> 2 ^ (bit_length n - 1) \<le> n \<and> n < 2 ^ bit_length n"
proof (induction n rule: bit_length.induct)
  case (1 n)
  have bl: "bit_length n = Suc (bit_length (n div 2))"
    using "1.prems" by (simp add: bit_length.simps)
  show ?case
  proof (cases "n div 2 = 0")
    case True
    then have "n = 1" using "1.prems" by (simp add: div_eq_0_iff)
    then show ?thesis by (simp add: bit_length.simps)
  next
    case False
    then have ih: "(2::nat) ^ (bit_length (n div 2) - 1) \<le> n div 2"
      "n div 2 < 2 ^ bit_length (n div 2)"
      using "1.IH" "1.prems" by simp_all
    have "0 < bit_length (n div 2)"
      using False by (simp add: bit_length.simps)
    then have "(2::nat) ^ (bit_length n - 1) = 2 * 2 ^ (bit_length (n div 2) - 1)"
      using bl by (cases "bit_length (n div 2)") simp_all
    moreover have "2 * (n div 2) \<le> n" by simp
    ultimately have lower: "2 ^ (bit_length n - 1) \<le> n" using ih(1) by linarith
    have "n < 2 * (n div 2) + 2" by presburger
    then have upper: "n < 2 ^ bit_length n" using ih(2) bl by simp
    show ?thesis using lower upper by simp
  qed
qed

lemma round_half_even_upper:
  "round_half_even q s * 2 ^ s \<le> q + 2 ^ s div 2"
proof -
  define t where "t = q div 2 ^ s"
  define r where "r = q mod 2 ^ s"
  have q: "q = t * 2 ^ s + r"
    unfolding t_def r_def by (rule div_mult_mod_eq [symmetric])
  have down: "t * 2 ^ s \<le> q + 2 ^ s div 2" using q by simp
  have up: "(t + 1) * 2 ^ s \<le> q + 2 ^ s div 2" if "2 ^ s \<le> 2 * r"
  proof -
    have "(t + 1) * 2 ^ s = t * 2 ^ s + 2 ^ s" by (simp add: algebra_simps)
    moreover have "(2::nat) ^ s \<le> r + 2 ^ s div 2" using that by linarith
    ultimately show ?thesis using q by linarith
  qed
  show ?thesis
    unfolding round_half_even_def Let_def t_def [symmetric] r_def [symmetric]
    using down up by auto
qed

lemma round_half_even_lower:
  "q \<le> round_half_even q s * 2 ^ s + 2 ^ s div 2"
proof -
  define t where "t = q div 2 ^ s"
  define r where "r = q mod 2 ^ s"
  have q: "q = t * 2 ^ s + r"
    unfolding t_def r_def by (rule div_mult_mod_eq [symmetric])
  have rlt: "r < 2 ^ s" by (simp add: r_def)
  have up: "q \<le> (t + 1) * 2 ^ s + 2 ^ s div 2"
    using q rlt by (simp add: algebra_simps)
  have down: "q \<le> t * 2 ^ s + 2 ^ s div 2" if "2 * r \<le> 2 ^ s"
    using q that by linarith
  show ?thesis
    unfolding round_half_even_def Let_def t_def [symmetric] r_def [symmetric]
    using down up by auto
qed

text \<open>
  The heart of the bounds check: a random value is at most \<open>1 - 2 ^ -shift\<close>, so the exact
  product stays \<open>n\<close> units of the last place of the draw below \<open>n\<close>, while rounding to 53
  bits moves it up by less than \<open>n\<close> such units.
\<close>

lemma round53_below:
  assumes m53: "m < 2 ^ 53" and me: "m < 2 ^ e" and n: "0 < n"
  shows "round53 (m * n) < n * 2 ^ e"
proof (cases "bit_length (m * n) \<le> 53")
  case True
  have "m * n < 2 ^ e * n" using me n by simp
  then show ?thesis using True by (simp add: round53_def mult.commute)
next
  case False
  define s where "s = bit_length (m * n) - 53"
  have b: "bit_length (m * n) = s + 53" and s: "0 < s"
    using False by (simp_all add: s_def)
  have pos: "0 < m * n"
    using False by (cases "m * n = 0") (simp_all add: bit_length.simps)
  have "(2::nat) ^ (s + 52) \<le> m * n"
    using bit_length_bounds [OF pos] b by (simp add: add.commute)
  also have "m * n < 2 ^ 53 * n" using m53 n by simp
  finally have "(2::nat) ^ 53 * (2 ^ s div 2) < 2 ^ 53 * n"
    using s by (cases s) (simp_all add: power_add)
  then have half: "2 ^ s div 2 < n" by simp
  have "m + 1 \<le> 2 ^ e" using me by simp
  then have "(m + 1) * n \<le> 2 ^ e * n" by (rule mult_le_mono1)
  then have mn: "m * n + n \<le> n * 2 ^ e" by (simp add: algebra_simps)
  have "round53 (m * n) = round_half_even (m * n) s * 2 ^ s"
    using False by (simp add: round53_def s_def)
  also have "\<dots> \<le> m * n + 2 ^ s div 2" by (rule round_half_even_upper)
  also have "\<dots> < m * n + n" using half by simp
  also note mn
  finally show ?thesis .
qed

lemma js_floor_times_less:
  assumes "random_value d" and "0 < n"
  shows "js_floor (js_times d n) < n"
proof -
  have "round53 (numer d * n) < n * 2 ^ shift d"
    using assms by (intro round53_below) (simp_all add: random_value_def)
  then show ?thesis
    by (simp add: js_floor_def js_times_def less_mult_imp_div_less)
qed

lemma random_value_range:
  assumes "random_value d"
  shows "0 \<le> number_value d" and "number_value d < 1"
proof -
  show "0 \<le> number_value d" by (simp add: number_value_def)
  have "real (numer d) < real (2 ^ shift d)"
    using assms unfolding random_value_def by (simp only: of_nat_less_iff)
  then show "number_value d < 1" by (simp add: number_value_def)
qed

lemma round53_error:
  "round53 q \<le> q + 2 ^ (bit_length q - 53) div 2"
  "q \<le> round53 q + 2 ^ (bit_length q - 53) div 2"
  using round_half_even_upper [of q "bit_length q - 53"]
    round_half_even_lower [of q "bit_length q - 53"]
  by (simp_all add: round53_def)

text \<open>The relative error of the rounding is at most \<open>2 ^ -53\<close>.\<close>

lemma round53_relative: "round53 q * 2 ^ 53 \<le> q * 2 ^ 53 + q"
proof (cases "bit_length q \<le> 53")
  case True
  then show ?thesis by (simp add: round53_def)
next
  case False
  define s where "s = bit_length q - 53"
  have b: "bit_length q = s + 53" and s: "0 < s"
    using False by (simp_all add: s_def)
  have pos: "0 < q"
    using False by (cases "q = 0") (simp_all add: bit_length.simps)
  have "(2::nat) ^ (s + 52) \<le> q"
    using bit_length_bounds [OF pos] b by (simp add: add.commute)
  then have half: "(2 ^ s div 2) * 2 ^ 53 \<le> q"
    using s by (cases s) (simp_all add: power_add)
  have "round53 q \<le> q + 2 ^ s div 2"
    using round53_error(1) [of q] by (simp add: s_def)
  then have "round53 q * 2 ^ 53 \<le> (q + 2 ^ s div 2) * 2 ^ 53"
    by (rule mult_le_mono1)
  also have "\<dots> = q * 2 ^ 53 + (2 ^ s div 2) * 2 ^ 53"
    by (simp add: algebra_simps)
  also have "\<dots> \<le> q * 2 ^ 53 + q" using half by simp
  finally show ?thesis .
qed

lemma round53_relative_real:
  "real (round53 q) \<le> real q * (1 + 1 / 2 ^ 53)"
proof -
  have "real (round53 q * 2 ^ 53) \<le> real (q * 2 ^ 53 + q)"
    using round53_relative [of q] by (simp only: of_nat_le_iff)
  then have "real (round53 q) * 2 ^ 53 \<le> real q * 2 ^ 53 + real q" by simp
  then have "real (round53 q) \<le> (real q * 2 ^ 53 + real q) / 2 ^ 53"
    by (simp add: le_divide_eq)
  also have "\<dots> = real q * (1 + 1 / 2 ^ 53)"
    by (simp add: field_simps)
  finally show ?thesis .
qed

lemma bit_length_le:
  assumes "n < 2 ^ w"
  shows "bit_length n \<le> w"
proof (cases "n = 0")
  case True
  then show ?thesis by (simp add: bit_length.simps)
next
  case False
  then have "(2::nat) ^ (bit_length n - 1) \<le> n" using bit_length_bounds [of n] by simp
  then have "(2::nat) ^ (bit_length n - 1) < 2 ^ w" using assms by (rule le_less_trans)
  then have "bit_length n - 1 < w" by (simp only: power_strict_increasing_iff rel_simps)
  then show ?thesis by simp
qed

lemma round_half_even_near:
  "q div 2 ^ s \<le> round_half_even q s" "round_half_even q s \<le> q div 2 ^ s + 1"
  by (simp_all add: round_half_even_def Let_def)

text \<open>
  The rounding is round to nearest, ties to even: no multiple of \<open>2 ^ s\<close> is nearer to
  \<open>q\<close> than the rounded value, a value half way between two multiples goes to the even
  one, and what is kept has at most 53 significant bits.
\<close>

lemma round_half_even_nearest:
  "\<bar>int (round_half_even q s * 2 ^ s) - int q\<bar> \<le> \<bar>int (t * 2 ^ s) - int q\<bar>"
proof -
  define p where "p = (2::nat) ^ s"
  define t0 where "t0 = q div p"
  define r where "r = q mod p"
  define R where "R = round_half_even q s"
  have q: "q = t0 * p + r"
    unfolding t0_def r_def by (rule div_mult_mod_eq [symmetric])
  have rlt: "r < p" by (simp add: r_def p_def)
  have up: "(t0 + 1) * p = t0 * p + p" by (simp add: algebra_simps)
  have other: "min (int r) (int p - int r) \<le> \<bar>int (t * p) - int q\<bar>"
  proof (cases "t \<le> t0")
    case True
    then have "t * p \<le> t0 * p" by (rule mult_le_mono1)
    then show ?thesis using q by linarith
  next
    case False
    then have "t0 + 1 \<le> t" by simp
    then have "(t0 + 1) * p \<le> t * p" by (rule mult_le_mono1)
    then show ?thesis using q up by linarith
  qed
  have choice: "R = (if 2 * r < p then t0 else if p < 2 * r then t0 + 1
                     else if even t0 then t0 else t0 + 1)"
    by (simp add: R_def round_half_even_def Let_def t0_def r_def p_def)
  have "\<bar>int (R * p) - int q\<bar> = min (int r) (int p - int r)"
  proof (cases "R = t0")
    case True
    then have "2 * r \<le> p" using choice by (auto split: if_splits)
    moreover have "R * p = t0 * p" using True by simp
    ultimately show ?thesis using q by linarith
  next
    case False
    then have "R = t0 + 1" and "p \<le> 2 * r" using choice by (auto split: if_splits)
    then have "R * p = t0 * p + p" and "p \<le> 2 * r" using up by simp_all
    then show ?thesis using q rlt by linarith
  qed
  then show ?thesis using other by (simp add: R_def p_def)
qed

lemma round_half_even_tie:
  assumes "2 * (q mod 2 ^ s) = 2 ^ s"
  shows "even (round_half_even q s)"
  using assms by (simp add: round_half_even_def Let_def)

lemma round53_significand:
  assumes "53 < bit_length q"
  shows "round_half_even q (bit_length q - 53) \<le> 2 ^ 53"
proof -
  define s where "s = bit_length q - 53"
  have b: "bit_length q = s + 53" using assms by (simp add: s_def)
  have pos: "0 < q" using assms by (cases "q = 0") (simp_all add: bit_length.simps)
  have "q < 2 ^ (s + 53)" using bit_length_bounds [OF pos] b by simp
  then have "q < 2 ^ 53 * 2 ^ s" by (simp add: power_add mult.commute)
  then have "q div 2 ^ s < 2 ^ 53" by (simp add: div_less_iff_less_mult)
  then show ?thesis
    using round_half_even_near(2) [of q s] unfolding s_def by linarith
qed

text \<open>
  Rounding never crosses a multiple of \<open>2 ^ e\<close>, as long as such multiples have at most
  53 significant bits: they are binary64 values themselves.
\<close>

lemma round53_brackets:
  assumes q: "q < 2 ^ (e + 53)"
  shows "q div 2 ^ e * 2 ^ e \<le> round53 q" and "round53 q \<le> (q div 2 ^ e + 1) * 2 ^ e"
proof -
  define j where "j = q div 2 ^ e"
  have lo: "j * 2 ^ e \<le> q" by (simp add: j_def)
  have hi: "q < (j + 1) * 2 ^ e"
  proof -
    have "q = j * 2 ^ e + q mod 2 ^ e"
      unfolding j_def by (rule div_mult_mod_eq [symmetric])
    moreover have "q mod 2 ^ e < 2 ^ e" by simp
    moreover have "(j + 1) * 2 ^ e = j * 2 ^ e + 2 ^ e" by (simp add: algebra_simps)
    ultimately show ?thesis by linarith
  qed
  have "j * 2 ^ e \<le> round53 q \<and> round53 q \<le> (j + 1) * 2 ^ e"
  proof (cases "bit_length q \<le> 53")
    case True
    then show ?thesis using lo hi by (simp add: round53_def)
  next
    case False
    define s where "s = bit_length q - 53"
    have "bit_length q \<le> e + 53" using q by (rule bit_length_le)
    then have se: "s \<le> e" by (simp add: s_def)
    define c where "c = (2::nat) ^ (e - s)"
    have pw: "(2::nat) ^ e = c * 2 ^ s"
      using se by (simp add: c_def power_add [symmetric])
    have r: "round53 q = round_half_even q s * 2 ^ s"
      using False by (simp add: round53_def s_def)
    have "(j * c) * 2 ^ s \<le> q" using lo by (simp only: pw mult.assoc)
    then have "j * c \<le> q div 2 ^ s"
      by (simp add: less_eq_div_iff_mult_less_eq)
    then have "j * c \<le> round_half_even q s"
      using round_half_even_near(1) [of q s] by linarith
    then have "(j * c) * 2 ^ s \<le> round_half_even q s * 2 ^ s"
      by (rule mult_le_mono1)
    then have a: "j * 2 ^ e \<le> round53 q" by (simp only: r pw mult.assoc)
    have "q < ((j + 1) * c) * 2 ^ s" using hi by (simp only: pw mult.assoc)
    then have "q div 2 ^ s < (j + 1) * c"
      by (simp add: div_less_iff_less_mult)
    then have "round_half_even q s \<le> (j + 1) * c"
      using round_half_even_near(2) [of q s] by linarith
    then have "round_half_even q s * 2 ^ s \<le> ((j + 1) * c) * 2 ^ s"
      by (rule mult_le_mono1)
    then have b: "round53 q \<le> (j + 1) * 2 ^ e" by (simp only: r pw mult.assoc)
    show ?thesis using a b by simp
  qed
  then show "q div 2 ^ e * 2 ^ e \<le> round53 q" and "round53 q \<le> (q div 2 ^ e + 1) * 2 ^ e"
    by (simp_all add: j_def)
qed

section \<open>The computed index and the exact one\<close>

lemma real_index_number:
  "real_index (number_value d) n = int (numer d * n div 2 ^ shift d)"
proof -
  have "number_value d * real n = real (numer d * n) / real (2 ^ shift d)"
    by (simp add: number_value_def)
  then show ?thesis
    unfolding real_index_def by (simp only: floor_divide_of_nat_eq)
qed

text \<open>
  The index that the handler computes in binary64 is the exact floor of the product or
  its successor, and it is the exact floor whenever the product needs no rounding.
\<close>

lemma js_floor_times_brackets:
  assumes "random_value d" and "n < 2 ^ 53"
  shows "real_index (number_value d) n \<le> int (js_floor (js_times d n))"
    and "int (js_floor (js_times d n)) \<le> real_index (number_value d) n + 1"
proof -
  let ?q = "numer d * n" and ?e = "shift d"
  have "?q < 2 ^ ?e * 2 ^ 53"
  proof (cases "n = 0")
    case True
    then show ?thesis by simp
  next
    case False
    have "numer d * n < 2 ^ ?e * n"
      using assms(1) False by (simp add: random_value_def)
    also have "\<dots> \<le> 2 ^ ?e * 2 ^ 53" using assms(2) by simp
    finally show ?thesis .
  qed
  then have q: "?q < 2 ^ (?e + 53)" by (simp add: power_add)
  have "?q div 2 ^ ?e \<le> round53 ?q div 2 ^ ?e"
    using round53_brackets(1) [OF q] by (simp add: less_eq_div_iff_mult_less_eq)
  moreover have "round53 ?q div 2 ^ ?e \<le> ?q div 2 ^ ?e + 1"
  proof -
    have "round53 ?q div 2 ^ ?e \<le> ((?q div 2 ^ ?e + 1) * 2 ^ ?e) div 2 ^ ?e"
      using round53_brackets(2) [OF q] by (rule div_le_mono)
    then show ?thesis by simp
  qed
  ultimately show "real_index (number_value d) n \<le> int (js_floor (js_times d n))"
    and "int (js_floor (js_times d n)) \<le> real_index (number_value d) n + 1"
    by (simp_all add: real_index_number js_floor_def js_times_def)
qed

lemma js_floor_times_exact:
  assumes "bit_length (numer d * n) \<le> 53"
  shows "int (js_floor (js_times d n)) = real_index (number_value d) n"
  using assms by (simp add: real_index_number js_floor_def js_times_def round53_def)

lemma js_floor_value: "int (js_floor x) = \<lfloor>number_value x\<rfloor>"
proof -
  have "number_value x = real (numer x) / real (2 ^ shift x)"
    by (simp add: number_value_def)
  then show ?thesis
    unfolding js_floor_def by (simp only: floor_divide_of_nat_eq)
qed

lemma js_times_value_upper:
  "number_value (js_times d n) \<le> number_value d * real n * (1 + 1 / 2 ^ 53)"
proof -
  define c :: real where "c = 1 + 1 / 2 ^ 53"
  have "real (round53 (numer d * n)) \<le> real (numer d * n) * c"
    unfolding c_def by (rule round53_relative_real)
  then have "real (round53 (numer d * n)) / 2 ^ shift d \<le> real (numer d * n) * c / 2 ^ shift d"
    by (rule divide_right_mono) simp
  then have "number_value (js_times d n) \<le> number_value d * real n * c"
    by (simp add: number_value_def js_times_def)
  then show ?thesis unfolding c_def .
qed

text \<open>
  The successor does occur. The binary64 value nearest to \<open>2 / 7\<close> is
  \<open>2573485501354569 / 2 ^ 53\<close>, which lies below \<open>2 / 7\<close>; its product with 7 is
  \<open>2 - 2 ^ -53\<close>, half way between two binary64 values, and is rounded to 2.
\<close>

lemma rounding_crosses_boundary:
  "random_value \<lparr>numer = 2573485501354569, shift = 53\<rparr>"
  "number_value \<lparr>numer = 2573485501354569, shift = 53\<rparr> < 2 / 7"
  "real_index (number_value \<lparr>numer = 2573485501354569, shift = 53\<rparr>) 7 = 1"
  "js_floor (js_times \<lparr>numer = 2573485501354569, shift = 53\<rparr> 7) = 2"
     apply (simp add: random_value_def)
    apply (simp add: number_value_def)
   apply (simp add: real_index_number)
  apply (simp add: js_floor_def js_times_def round53_def round_half_even_def bit_length.simps)
  done

section \<open>What a call does\<close>

lemma getRandomSong_eq:
  "getRandomSong req st db r =
     handler (req\<lparr>context' := (''user'', 1) # context' req\<rparr>) st db r"
  by (simp add: getRandomSong_def createServerFn_def authMiddleware_def)

lemma getRandomSong_rejected:
  "getRandomSong req st (Inl e) r = (Inl e, st)"
  by (simp add: getRandomSong_eq handler_def)

lemma getRandomSong_fulfilled:
  "getRandomSong req st (Inr q) r =
     (Inr (js_index (catalog st) (js_floor (js_times r (length (catalog st))))), st)"
  by (simp add: getRandomSong_eq handler_def)

lemma getRandomSong_state: "snd (getRandomSong req st db r) = st"
  by (cases db) (simp_all add: getRandomSong_rejected getRandomSong_fulfilled)

lemma serve_state: "serve st calls = st"
  by (induction st calls rule: serve.induct) (simp_all add: getRandomSong_state)

lemma length_songs: "length songs = 7"
  by (simp add: songs_def)

text \<open>
  No run of the program reaches a state with an empty catalog: \<^verbatim>\<open>songs\<close> is built with seven
  records and no call writes it.
\<close>

lemma catalog_never_empty: "catalog (serve initial calls) \<noteq> []"
  by (simp add: serve_state initial_def songs_def)

text \<open>The invariant is a real check: it rejects catalogs that break one of its parts.\<close>

lemma catalog_inv_rejects:
  "\<not> catalog_inv []"
  "\<not> catalog_inv [s, s]"
  "\<not> catalog_inv [\<lparr>id' = 0, name = n, artist = a\<rparr>]"
  "\<not> catalog_inv [\<lparr>id' = 1, name = [], artist = a\<rparr>]"
  "\<not> catalog_inv [\<lparr>id' = 1, name = n, artist = []\<rparr>]"
  by (simp_all add: catalog_inv_def)

section \<open>The claims\<close>

text \<open>
  Claim C1. For every value \<open>r\<close> that \<^verbatim>\<open>Math.random()\<close> can return (a binary64 value with
  \<open>0 \<le> r < 1\<close>), if the liveness query succeeds and the catalog is not empty, then
  \<^verbatim>\<open>$getRandomSong\<close> returns a record that is a member of the catalog; in particular its
  id is one of the ids of the catalog.
\<close>

theorem pick_is_member:
  assumes "random_value r" and "catalog st \<noteq> []"
  shows "\<exists>s. fst (getRandomSong req st (Inr q) r) = Inr (Some s) \<and>
           s \<in> set (catalog st) \<and> id' s \<in> id' ` set (catalog st)"
proof -
  let ?k = "js_floor (js_times r (length (catalog st)))"
  have "?k < length (catalog st)"
    using assms by (intro js_floor_times_less) simp_all
  then have "js_index (catalog st) ?k = Some (catalog st ! ?k)"
    and "catalog st ! ?k \<in> set (catalog st)"
    by (simp_all add: js_index_def)
  then show ?thesis
    by (simp add: getRandomSong_fulfilled)
qed

theorem pick_is_member_witness:
  "random_value \<lparr>numer = 1, shift = 1\<rparr> \<and> catalog initial \<noteq> [] \<and>
   (\<exists>s. fst (getRandomSong \<lparr>data = (), context' = []\<rparr> initial
               (Inr () :: string + unit) \<lparr>numer = 1, shift = 1\<rparr>) = Inr (Some s) \<and>
        s \<in> set (catalog initial) \<and> id' s \<in> id' ` set (catalog initial))"
  using pick_is_member [of "\<lparr>numer = 1, shift = 1\<rparr>" initial
      "\<lparr>data = (), context' = []\<rparr>" "()"]
  by (simp add: random_value_def initial_def songs_def)

text \<open>
  Claim C3. If the liveness query fails with an error \<open>e\<close>, then \<^verbatim>\<open>$getRandomSong\<close> fails
  with the same \<open>e\<close>, unmodified, whatever the catalog and the random source hold; no
  value, hence no song record, is returned, and the state is left as it was.
\<close>

theorem store_failure_propagates:
  "getRandomSong req st (Inl e) r = (Inl e, st) \<and>
   (\<forall>v. fst (getRandomSong req st (Inl e) r) \<noteq> Inr v)"
  by (simp add: getRandomSong_rejected)

text \<open>
  Claim C4, as it is written: the draws for which the index is \<open>i\<close> are the interval from
  \<open>i / 7\<close> to \<open>(i + 1) / 7\<close>, of length exactly \<open>1 / 7\<close>. The handler multiplies in
  binary64, and the rounded product can reach the next integer: the draw
  \<open>2573485501354569 / 2 ^ 53\<close> (the binary64 value nearest to \<open>2 / 7\<close>, printed
  \<^verbatim>\<open>0.2857142857142857\<close>) lies in the interval of index 1, from \<open>1 / 7\<close> to \<open>2 / 7\<close>, and
  the handler reads \<^verbatim>\<open>songs[2]\<close>.
\<close>

theorem rounded_preimage_differs:
  "random_value \<lparr>numer = 2573485501354569, shift = 53\<rparr> \<and>
   1 / 7 \<le> number_value \<lparr>numer = 2573485501354569, shift = 53\<rparr> \<and>
   number_value \<lparr>numer = 2573485501354569, shift = 53\<rparr> < 2 / 7 \<and>
   js_floor (js_times \<lparr>numer = 2573485501354569, shift = 53\<rparr> (length songs)) = 2"
  by (simp add: random_value_def number_value_def length_songs
      js_floor_def js_times_def round53_def round_half_even_def bit_length.simps)

text \<open>
  Claim C4, amended. For every binary64 draw \<open>r\<close> with \<open>0 \<le> r < 1\<close> and every index \<open>i\<close>:
  if \<open>i / 7 \<le> r\<close> and \<open>r * (1 + 2 ^ -53) < (i + 1) / 7\<close>, the handler computes the index
  \<open>i\<close>; and if the handler computes the index \<open>i\<close>, then
  \<open>i / (7 * (1 + 2 ^ -53)) \<le> r < (i + 1) / 7\<close>. The draws that select the entry \<open>i\<close> are
  the interval from \<open>i / 7\<close> to \<open>(i + 1) / 7\<close>, of length \<open>1 / 7\<close>, up to a relative
  rounding error of \<open>2 ^ -53\<close> at its two ends.
\<close>

theorem rounded_index_preimage:
  assumes "random_value d"
  shows "(real i / 7 \<le> number_value d \<and> number_value d * (1 + 1 / 2 ^ 53) < (real i + 1) / 7
            \<longrightarrow> js_floor (js_times d (length songs)) = i) \<and>
         (js_floor (js_times d (length songs)) = i
            \<longrightarrow> real i / (7 * (1 + 1 / 2 ^ 53)) \<le> number_value d \<and>
                number_value d < (real i + 1) / 7)"
proof -
  define v where "v = number_value d"
  define k where "k = js_floor (js_times d 7)"
  have lower: "\<lfloor>v * 7\<rfloor> \<le> int k"
    using js_floor_times_brackets(1) [OF assms, of 7]
    by (simp add: real_index_def v_def k_def)
  have k: "int k = \<lfloor>number_value (js_times d 7)\<rfloor>"
    unfolding k_def by (rule js_floor_value)
  have upper: "number_value (js_times d 7) \<le> v * 7 * (1 + 1 / 2 ^ 53)"
    using js_times_value_upper [of d 7] by (simp add: v_def)
  have sel: "k = i" if "real i / 7 \<le> v" and "v * (1 + 1 / 2 ^ 53) < (real i + 1) / 7"
  proof -
    have "real i \<le> v * 7" using that(1) by (simp add: divide_le_eq)
    then have "int i \<le> \<lfloor>v * 7\<rfloor>" by (simp add: le_floor_iff)
    then have a: "i \<le> k" using lower by linarith
    have "v * 7 * (1 + 1 / 2 ^ 53) < real i + 1"
      using that(2) by (simp add: less_divide_eq algebra_simps)
    then have "number_value (js_times d 7) < real i + 1" using upper by linarith
    then have "number_value (js_times d 7) < of_int (int i + 1)" by simp
    then have "\<lfloor>number_value (js_times d 7)\<rfloor> < int i + 1"
      by (simp only: floor_less_iff)
    then have "k \<le> i" using k by linarith
    then show ?thesis using a by simp
  qed
  have pre: "real i / (7 * (1 + 1 / 2 ^ 53)) \<le> v \<and> v < (real i + 1) / 7" if "k = i"
  proof -
    have "\<lfloor>v * 7\<rfloor> < int i + 1" using lower that by linarith
    then have "v * 7 < of_int (int i + 1)" by (simp only: floor_less_iff)
    then have "v * 7 < real i + 1" by simp
    then have b: "v < (real i + 1) / 7" by (simp add: less_divide_eq)
    have "real_of_int (int k) \<le> number_value (js_times d 7)"
      unfolding k by (rule of_int_floor_le)
    then have "real k \<le> number_value (js_times d 7)" by simp
    then have "real i \<le> v * (7 * (1 + 1 / 2 ^ 53))" using upper that by (simp add: mult.assoc)
    then have "real i / (7 * (1 + 1 / 2 ^ 53)) \<le> v"
      by (simp only: divide_le_eq) simp
    then show ?thesis using b by simp
  qed
  show ?thesis
    using sel pre unfolding v_def k_def length_songs by blast
qed

theorem rounded_index_preimage_witness:
  "random_value \<lparr>numer = 1, shift = 1\<rparr> \<and>
   real 3 / 7 \<le> number_value \<lparr>numer = 1, shift = 1\<rparr> \<and>
   number_value \<lparr>numer = 1, shift = 1\<rparr> * (1 + 1 / 2 ^ 53) < (real 3 + 1) / 7 \<and>
   js_floor (js_times \<lparr>numer = 1, shift = 1\<rparr> (length songs)) = 3 \<and>
   real 3 / (7 * (1 + 1 / 2 ^ 53)) \<le> number_value \<lparr>numer = 1, shift = 1\<rparr> \<and>
   number_value \<lparr>numer = 1, shift = 1\<rparr> < (real 3 + 1) / 7"
proof -
  have r: "random_value \<lparr>numer = 1, shift = 1\<rparr>" by (simp add: random_value_def)
  have a: "real 3 / 7 \<le> number_value \<lparr>numer = 1, shift = 1\<rparr>"
    by (simp add: number_value_def)
  have b: "number_value \<lparr>numer = 1, shift = 1\<rparr> * (1 + 1 / 2 ^ 53) < (real 3 + 1) / 7"
    by (simp add: number_value_def)
  show ?thesis
    using rounded_index_preimage [OF r, of 3] a b r by blast
qed

text \<open>
  Claim C5. The array read of the handler is always in bounds. For every real \<open>x\<close> with
  \<open>0 \<le> x < 1\<close> the exact index \<open>\<lfloor>x * songs.length\<rfloor>\<close> is at least 0 and below
  \<^verbatim>\<open>songs.length\<close>; and for every binary64 value \<open>r\<close> that \<^verbatim>\<open>Math.random()\<close> can return, up to
  the largest one below 1, the index computed with the rounded product is below
  \<^verbatim>\<open>songs.length\<close> as well, so the read yields an element of \<^verbatim>\<open>songs\<close>.
\<close>

theorem catalog_access_in_bounds:
  "(0 \<le> x \<and> x < 1 \<longrightarrow>
      0 \<le> real_index x (length songs) \<and> real_index x (length songs) < int (length songs)) \<and>
   (random_value r \<longrightarrow>
      js_floor (js_times r (length songs)) < length songs \<and>
      js_index songs (js_floor (js_times r (length songs)))
        = Some (songs ! js_floor (js_times r (length songs))))"
proof -
  have "0 \<le> real_index x (length songs) \<and> real_index x (length songs) < int (length songs)"
    if "0 \<le> x" and "x < 1"
  proof -
    have "0 \<le> x * 7" and "x * 7 < 7" using that by simp_all
    then show ?thesis
      by (simp add: real_index_def length_songs floor_less_iff)
  qed
  moreover have "js_floor (js_times r (length songs)) < length songs" if "random_value r"
    using that by (rule js_floor_times_less) (simp add: length_songs)
  ultimately show ?thesis by (simp add: js_index_def)
qed

theorem catalog_access_in_bounds_witness:
  "(0::real) \<le> (2 ^ 53 - 1) / 2 ^ 53 \<and> ((2 ^ 53 - 1) / 2 ^ 53 :: real) < 1 \<and>
   real_index ((2 ^ 53 - 1) / 2 ^ 53) (length songs) = 6 \<and>
   random_value \<lparr>numer = 2 ^ 53 - 1, shift = 53\<rparr> \<and>
   js_floor (js_times \<lparr>numer = 2 ^ 53 - 1, shift = 53\<rparr> (length songs)) = 6 \<and>
   js_index songs (js_floor (js_times \<lparr>numer = 2 ^ 53 - 1, shift = 53\<rparr> (length songs)))
     = Some \<lparr>id' = 7, name = ''Beverly Hills'', artist = ''Weezer''\<rparr>"
proof -
  have a: "real_index ((2 ^ 53 - 1) / 2 ^ 53) 7 = 6"
    unfolding real_index_def floor_eq_iff by simp
  have b: "js_floor (js_times \<lparr>numer = 2 ^ 53 - 1, shift = 53\<rparr> 7) = 6"
    by (simp add: js_floor_def js_times_def round53_def round_half_even_def bit_length.simps)
  have c: "random_value \<lparr>numer = 2 ^ 53 - 1, shift = 53\<rparr>"
    by (simp add: random_value_def)
  have d: "songs ! 6 = \<lparr>id' = 7, name = ''Beverly Hills'', artist = ''Weezer''\<rparr>"
    by (simp add: songs_def)
  show ?thesis
    using catalog_access_in_bounds [of "(2 ^ 53 - 1) / 2 ^ 53" "\<lparr>numer = 2 ^ 53 - 1, shift = 53\<rparr>"]
    by (simp only: a b c d length_songs) simp
qed

text \<open>
  Claim C6. The catalog satisfies the invariants of the data model when it is built and
  after any sequence of calls: it has at least one entry, every id is a positive integer,
  the ids are pairwise distinct, and every name and every artist is a non-empty text.
\<close>

theorem catalog_invariants:
  "catalog_inv (catalog initial) \<and> catalog_inv (catalog (serve initial calls))"
  by (simp add: serve_state catalog_inv_def initial_def songs_def)

text \<open>
  Claim C7. No call changes the catalog: after a call to \<^verbatim>\<open>$getRandomSong\<close>, whether the
  query succeeded or failed, the state is the state before the call, and the catalog read
  after any sequence of calls is the catalog read before it, in the same order.
\<close>

theorem catalog_unchanged:
  "snd (getRandomSong req st db r) = st \<and>
   catalog (snd (getRandomSong req st db r)) = catalog st \<and>
   catalog (serve st calls) = catalog st"
  by (simp add: getRandomSong_state serve_state)

text \<open>
  Claim C8. With the catalog of the two songs with ids 1 and 2 and a successful liveness
  probe, every call returns the record with id 1 or the record with id 2, and never an
  error.
\<close>

theorem two_song_scenario:
  assumes "random_value r"
  shows "\<exists>s. fst (getRandomSong req
                  \<lparr>catalog = [\<lparr>id' = 1, name = ''Teenage Dirtbag'', artist = ''Wheatus''\<rparr>,
                              \<lparr>id' = 2, name = ''Smells Like Teen Spirit'', artist = ''Nirvana''\<rparr>]\<rparr>
                  (Inr q) r) = Inr (Some s) \<and>
             (id' s = 1 \<or> id' s = 2)"
proof -
  define c where
    "c = [\<lparr>id' = 1, name = ''Teenage Dirtbag'', artist = ''Wheatus''\<rparr>,
          \<lparr>id' = 2, name = ''Smells Like Teen Spirit'', artist = ''Nirvana''\<rparr>]"
  define k where "k = js_floor (js_times r (length c))"
  have less: "k < length c"
    unfolding k_def using assms by (rule js_floor_times_less) (simp add: c_def)
  then have "k = 0 \<or> k = 1" by (auto simp add: c_def)
  then have ids: "id' (c ! k) = 1 \<or> id' (c ! k) = 2" by (auto simp add: c_def)
  have "fst (getRandomSong req \<lparr>catalog = c\<rparr> (Inr q) r) = Inr (Some (c ! k))"
    using less by (simp add: getRandomSong_fulfilled js_index_def k_def)
  with ids show ?thesis unfolding c_def by blast
qed

theorem two_song_scenario_witness:
  "random_value \<lparr>numer = 3, shift = 2\<rparr> \<and>
   (\<exists>s. fst (getRandomSong \<lparr>data = (), context' = []\<rparr>
                  \<lparr>catalog = [\<lparr>id' = 1, name = ''Teenage Dirtbag'', artist = ''Wheatus''\<rparr>,
                              \<lparr>id' = 2, name = ''Smells Like Teen Spirit'', artist = ''Nirvana''\<rparr>]\<rparr>
                  (Inr () :: string + unit) \<lparr>numer = 3, shift = 2\<rparr>) = Inr (Some s) \<and>
        (id' s = 1 \<or> id' s = 2))"
  using two_song_scenario [of "\<lparr>numer = 3, shift = 2\<rparr>" "\<lparr>data = (), context' = []\<rparr>" "()"]
  by (simp add: random_value_def)

text \<open>
  Claim C9. The result of the liveness query is discarded: two calls whose queries
  succeed with different results and whose random draws are equal return the same value
  (and leave the same state).
\<close>

theorem query_result_discarded:
  "getRandomSong req st (Inr q1) r = getRandomSong req st (Inr q2) r"
  by (simp add: getRandomSong_fulfilled)

text \<open>
  Claim C10. \<^verbatim>\<open>authMiddleware\<close> passes the constant context \<^verbatim>\<open>{ user: 1 }\<close> on, so the
  context that reaches the handler has \<^verbatim>\<open>user\<close> equal to 1 whatever the request is; the
  handler does not read what it is given; and two calls with equal random draws and
  successful queries return the same value whatever their requests contain.
\<close>

theorem identity_ignored:
  "authMiddleware (\<lambda>added. added) = [(''user'', 1)] \<and>
   createServerFn authMiddleware (\<lambda>ctx. map_of (context' ctx) ''user'') req = Some 1 \<and>
   handler c1 st db r = handler c2 st db r \<and>
   getRandomSong req1 st (Inr q1) r = getRandomSong req2 st (Inr q2) r"
  by (simp add: authMiddleware_def createServerFn_def handler_def getRandomSong_fulfilled)

end
